theory Spec2Isabelle
  imports Complex_Main
begin

section \<open>JavaScript values used by the program\<close>

text \<open>
  A string is the list of its code units, written as an Isabelle string (code units
  below 256). The loop counter of the resolver is a natural number. A number of the pseudo-random stream is a double,
  given as the rational it denotes; a product of two numbers is rounded as the language
  rounds it (next section). An optional field of an options object is an \<open>option\<close>:
  \<open>None\<close> is \<open>undefined\<close>.
\<close>

datatype error = TypeError

text \<open>\<open>a || b\<close>: the left operand when it is present and truthy, the right one otherwise.\<close>

definition js_or :: "('a \<Rightarrow> bool) \<Rightarrow> 'a option \<Rightarrow> 'a \<Rightarrow> 'a" where
  "js_or truthy a b = (case a of None \<Rightarrow> b | Some x \<Rightarrow> if truthy x then x else b)"

definition truthy_bigint :: "int \<Rightarrow> bool" where
  "truthy_bigint n = (n \<noteq> 0)"

definition truthy_string :: "string \<Rightarrow> bool" where
  "truthy_string s = (s \<noteq> [])"

definition truthy_boolean :: "bool \<Rightarrow> bool" where
  "truthy_boolean b = b"

text \<open>
  Decimal rendering of an integral number, as string concatenation produces it for a
  magnitude below \<open>10 ^ 21\<close>.
\<close>

definition digit_char :: "nat \<Rightarrow> char" where
  "digit_char d = ''0123456789'' ! (d mod 10)"

fun show_nat :: "nat \<Rightarrow> string" where
  "show_nat n = (if n < 10 then [digit_char n] else show_nat (n div 10) @ [digit_char (n mod 10)])"

declare show_nat.simps [simp del]

definition numberToString :: "int \<Rightarrow> string" where
  "numberToString n = (if n < 0 then CHR ''-'' # show_nat (nat (- n)) else show_nat (nat n))"

definition charAt :: "string \<Rightarrow> nat \<Rightarrow> string" where
  "charAt s i = take 1 (drop i s)"

definition slice :: "string \<Rightarrow> nat \<Rightarrow> string" where
  "slice s i = drop i s"

text \<open>A possibly undefined word inside a string concatenation.\<close>

definition toStr :: "string option \<Rightarrow> string" where
  "toStr w = (case w of None \<Rightarrow> ''undefined'' | Some s \<Rightarrow> s)"

section \<open>Multiplication of doubles\<close>

text \<open>
  A finite double is \<open>m * 2 ^ (e - 52)\<close> with an integer \<open>m\<close> of at most 53 bits and
  \<open>- 1022 \<le> e \<le> 1023\<close>. The product of two doubles is their exact product rounded to the
  nearest double, a tie going to the even \<open>m\<close>. \<open>binade x\<close> is the exponent \<open>e\<close> of a
  positive \<open>x\<close>: \<open>2 ^ e \<le> x < 2 ^ (e + 1)\<close>, and \<open>- 1022\<close> for every \<open>x\<close> below
  \<open>2 ^ (- 1022)\<close>, where the doubles keep the spacing \<open>2 ^ (- 1074)\<close>. A product of
  \<open>2 ^ 1024\<close> or more, which the language turns into \<open>Infinity\<close>, is left as the
  rational; no stream value in \<open>[0, 1)\<close> leads there.
\<close>

function bit_length :: "int \<Rightarrow> nat" where
  "bit_length n = (if n \<le> 0 then 0 else Suc (bit_length (n div 2)))"
  by pat_completeness auto
termination
  by (relation "measure nat") auto

declare bit_length.simps [simp del]

definition pow2 :: "int \<Rightarrow> rat" where
  "pow2 k = (if 0 \<le> k then 2 ^ nat k else 1 / 2 ^ nat (- k))"

definition binade :: "rat \<Rightarrow> int" where
  "binade x =
     (if 1 \<le> x then int (bit_length \<lfloor>x\<rfloor>) - 1
      else max (- 1022) (- int (bit_length (\<lceil>1 / x\<rceil> - 1))))"

definition round_half_even :: "rat \<Rightarrow> int" where
  "round_half_even q =
     (let f = \<lfloor>q\<rfloor>; r = q - of_int f
      in if r < 1 / 2 then f else if 1 / 2 < r then f + 1 else if even f then f else f + 1)"

definition round_double_pos :: "rat \<Rightarrow> rat" where
  "round_double_pos x = (let u = pow2 (binade x - 52) in of_int (round_half_even (x / u)) * u)"

definition round_double :: "rat \<Rightarrow> rat" where
  "round_double x =
     (if x = 0 then 0 else if x < 0 then - round_double_pos (- x) else round_double_pos x)"

text \<open>\<open>a * b\<close> on doubles.\<close>

definition dmul :: "rat \<Rightarrow> rat \<Rightarrow> rat" where
  "dmul a b = round_double (a * b)"

section \<open>The seeded word sampler\<close>

record RandomNameOptions =
  opt_seed :: "int option"
  opt_separator :: "string option"
  opt_capitalize :: "bool option"
  opt_addNumbers :: "bool option"

text \<open>
  The generator closure \<open>nextRnd\<close> is the sequence of the values it has yet to return:
  a call returns the value at position 0 and leaves the rest.
\<close>

record RandomName =
  seed :: int
  nextRnd :: "nat \<Rightarrow> rat"
  separator :: string
  capitalize :: bool
  addNumbers :: bool

definition MAX_SAFE_INTEGER :: int where
  "MAX_SAFE_INTEGER = 2 ^ 53 - 1"

text \<open>
  The constructor. The library function \<open>randomSeeded\<close> and the value that
  \<open>Math.random()\<close> would return are parameters.
\<close>

definition RandomName_new ::
  "(int \<Rightarrow> nat \<Rightarrow> rat) \<Rightarrow> rat \<Rightarrow> RandomNameOptions \<Rightarrow> RandomName" where
  "RandomName_new randomSeeded mathRandom options =
     (let s = js_or truthy_bigint (opt_seed options)
                \<lfloor>dmul mathRandom (of_int MAX_SAFE_INTEGER)\<rfloor>
      in \<lparr> seed = s,
           nextRnd = randomSeeded s,
           separator = js_or truthy_string (opt_separator options) '' '',
           capitalize = js_or truthy_boolean (opt_capitalize options) False,
           addNumbers = js_or truthy_boolean (opt_addNumbers options) False \<rparr>)"

definition call_nextRnd :: "RandomName \<Rightarrow> rat \<times> RandomName" where
  "call_nextRnd this = (nextRnd this 0, this\<lparr> nextRnd := (\<lambda>i. nextRnd this (Suc i)) \<rparr>)"

text \<open>
  \<open>pick\<close>: the index is the floor of the double product of the drawn value and the
  length (a length is below \<open>2 ^ 32\<close> and is a double as it is); an index outside the
  array reads \<open>undefined\<close>.
\<close>

definition pick :: "RandomName \<Rightarrow> 'a list \<Rightarrow> 'a option \<times> RandomName" where
  "pick this arr =
     (let (v, this') = call_nextRnd this;
          i = \<lfloor>dmul v (of_nat (length arr))\<rfloor>
      in (if 0 \<le> i \<and> i < int (length arr) then Some (arr ! nat i) else None, this'))"

text \<open>
  The local function \<open>capitalize\<close> of \<open>next\<close>; calling a method of \<open>undefined\<close> throws.
  The string method \<open>toUpperCase\<close> belongs to the language, with its case mapping of all
  scripts, and is a parameter: it takes a string to a string, which may be longer.
\<close>

definition capitalizeWord ::
  "(string \<Rightarrow> string) \<Rightarrow> bool \<Rightarrow> string option \<Rightarrow> error + string option" where
  "capitalizeWord toUpperCase cap w =
     (if cap then
        (case w of
           None \<Rightarrow> Inl TypeError
         | Some word \<Rightarrow> Inr (Some (toUpperCase (charAt word 0) @ slice word 1)))
      else Inr w)"

text \<open>\<open>next\<close>, with the two word lists of the names asset as parameters.\<close>

definition RandomName_next ::
  "(string \<Rightarrow> string) \<Rightarrow> string list \<Rightarrow> string list \<Rightarrow> RandomName
     \<Rightarrow> (error + string) \<times> RandomName" where
  "RandomName_next toUpperCase adjectives animals this =
     (let (w1, t1) = pick this adjectives in
      case capitalizeWord toUpperCase (capitalize this) w1 of
        Inl e \<Rightarrow> (Inl e, t1)
      | Inr c1 \<Rightarrow>
          (let (w2, t2) = pick t1 animals in
           case capitalizeWord toUpperCase (capitalize this) w2 of
             Inl e \<Rightarrow> (Inl e, t2)
           | Inr c2 \<Rightarrow>
               (let name = toStr c1 @ separator this @ toStr c2 in
                if addNumbers this then
                  (let (v, t3) = call_nextRnd t2
                   in (Inr (name @ separator this @ numberToString \<lfloor>dmul v 100\<rfloor>), t3))
                else (Inr name, t2))))"

section \<open>The unique name resolver\<close>

text \<open>
  The fields of \<open>Options\<close> that \<open>getProjectName\<close> reads. \<open>copy\<close> is a string or
  \<open>false\<close>; \<open>None\<close> stands for \<open>false\<close> and for \<open>undefined\<close>, which the code does
  not tell apart.
\<close>

record Options =
  name :: "string option"
  copy :: "string option"
  root_dir :: string

text \<open>
  What \<open>getProjectName\<close> takes from outside: the library generator, the value
  \<open>Math.random()\<close> returns, the language's \<open>toUpperCase\<close>, the two word lists and the
  file system's \<open>existsSync\<close>.
\<close>

record Env =
  randomSeeded :: "int \<Rightarrow> nat \<Rightarrow> rat"
  mathRandom :: rat
  toUpperCase :: "string \<Rightarrow> string"
  adjectives :: "string list"
  animals :: "string list"
  existsSync :: "string \<Rightarrow> bool"

definition js_truthy :: "('a \<Rightarrow> bool) \<Rightarrow> 'a option \<Rightarrow> bool" where
  "js_truthy truthy a = (case a of None \<Rightarrow> False | Some x \<Rightarrow> truthy x)"

text \<open>
  Each loop of \<open>getProjectName\<close> in \<open>src/main.ts\<close>. A loop returns its result together
  with the paths passed to \<open>existsSync\<close>, in call order; a loop that never ends is
  \<open>None\<close>.
  The counter \<open>i\<close> is a natural number: the source's number counts exactly up to
  \<open>2 ^ 53\<close>, far beyond the number of directories a file system holds.
\<close>

partial_function (option) copy_loop ::
  "(string \<Rightarrow> bool) \<Rightarrow> string \<Rightarrow> string \<Rightarrow> string \<Rightarrow> nat \<Rightarrow> string list
     \<Rightarrow> (string \<times> string list) option" where
  "copy_loop ex rt base x' i probes =
     (if ex (rt @ ''/'' @ x')
      then copy_loop ex rt base (base @ ''-copy-'' @ numberToString (int i)) (i + 1)
             (probes @ [rt @ ''/'' @ x'])
      else Some (x', probes @ [rt @ ''/'' @ x']))"

partial_function (option) fresh_loop ::
  "(string \<Rightarrow> bool) \<Rightarrow> (string \<Rightarrow> string) \<Rightarrow> string list \<Rightarrow> string list \<Rightarrow> string
     \<Rightarrow> RandomName \<Rightarrow> string list \<Rightarrow> ((error + string) \<times> string list) option" where
  "fresh_loop ex up adjs anis rt randomName probes =
     (case RandomName_next up adjs anis randomName of
        (Inl e, randomName') \<Rightarrow> Some (Inl e, probes)
      | (Inr projectName, randomName') \<Rightarrow>
          if ex (rt @ ''/'' @ projectName)
          then fresh_loop ex up adjs anis rt randomName' (probes @ [rt @ ''/'' @ projectName])
          else Some (Inr projectName, probes @ [rt @ ''/'' @ projectName]))"

definition getProjectName :: "Env \<Rightarrow> Options \<Rightarrow> ((error + string) \<times> string list) option" where
  "getProjectName env options =
     (if js_truthy truthy_string (name options) then Some (Inr (the (name options)), [])
      else if js_truthy truthy_string (copy options) then
        map_option (\<lambda>(x, probes). (Inr x, probes))
          (copy_loop (existsSync env) (root_dir options) (the (copy options))
             (the (copy options) @ ''-copy'') 1 [])
      else
        fresh_loop (existsSync env) (toUpperCase env) (adjectives env) (animals env)
          (root_dir options)
          (RandomName_new (randomSeeded env) (mathRandom env)
             \<lparr> opt_seed = None, opt_separator = Some ''-'',
               opt_capitalize = None, opt_addNumbers = Some True \<rparr>)
          [])"

text \<open>
  Each loop of \<open>getProjectName\<close> in the older, monolithic main.
\<close>

partial_function (option) copy_loop_old ::
  "(string \<Rightarrow> bool) \<Rightarrow> string \<Rightarrow> string \<Rightarrow> string \<Rightarrow> nat \<Rightarrow> string list
     \<Rightarrow> (string \<times> string list) option" where
  "copy_loop_old ex rt base x' i probes =
     (if ex (rt @ ''/'' @ x')
      then copy_loop_old ex rt base (base @ ''-copy-'' @ numberToString (int i)) (i + 1)
             (probes @ [rt @ ''/'' @ x'])
      else Some (x', probes @ [rt @ ''/'' @ x']))"

partial_function (option) fresh_loop_old ::
  "(string \<Rightarrow> bool) \<Rightarrow> (string \<Rightarrow> string) \<Rightarrow> string list \<Rightarrow> string list \<Rightarrow> string
     \<Rightarrow> RandomName \<Rightarrow> string list \<Rightarrow> ((error + string) \<times> string list) option" where
  "fresh_loop_old ex up adjs anis rt randomName probes =
     (case RandomName_next up adjs anis randomName of
        (Inl e, randomName') \<Rightarrow> Some (Inl e, probes)
      | (Inr projectName, randomName') \<Rightarrow>
          if ex (rt @ ''/'' @ projectName)
          then fresh_loop_old ex up adjs anis rt randomName'
                 (probes @ [rt @ ''/'' @ projectName])
          else Some (Inr projectName, probes @ [rt @ ''/'' @ projectName]))"

definition getProjectName_old :: "Env \<Rightarrow> Options \<Rightarrow> ((error + string) \<times> string list) option" where
  "getProjectName_old env options =
     (if js_truthy truthy_string (name options) then Some (Inr (the (name options)), [])
      else if js_truthy truthy_string (copy options) then
        map_option (\<lambda>(x, probes). (Inr x, probes))
          (copy_loop_old (existsSync env) (root_dir options) (the (copy options))
             (the (copy options) @ ''-copy'') 1 [])
      else
        fresh_loop_old (existsSync env) (toUpperCase env) (adjectives env) (animals env)
          (root_dir options)
          (RandomName_new (randomSeeded env) (mathRandom env)
             \<lparr> opt_seed = None, opt_separator = Some ''-'',
               opt_capitalize = None, opt_addNumbers = Some True \<rparr>)
          [])"

section \<open>Notions used in the statements\<close>

text \<open>
  A rational is a finite double when rounding leaves it as it is and it lies below
  \<open>2 ^ 1024\<close> in magnitude.
\<close>

definition is_double :: "rat \<Rightarrow> bool" where
  "is_double x = (round_double x = x \<and> \<bar>x\<bar> < pow2 1024)"

text \<open>A value of the pseudo-random stream lies in \<open>[0, 1)\<close>.\<close>

definition unit_interval :: "rat \<Rightarrow> bool" where
  "unit_interval v = (0 \<le> v \<and> v < 1)"

text \<open>The index that \<open>pick\<close> computes from a stream value.\<close>

definition drawn_index :: "rat \<Rightarrow> 'a list \<Rightarrow> nat" where
  "drawn_index v arr = nat \<lfloor>dmul v (of_nat (length arr))\<rfloor>"

text \<open>The sampler after \<open>k\<close> draws from its stream.\<close>

definition advance :: "nat \<Rightarrow> RandomName \<Rightarrow> RandomName" where
  "advance k this = this\<lparr> nextRnd := (\<lambda>i. nextRnd this (i + k)) \<rparr>"

text \<open>
  A word as it appears in a name: with capitalization its first code unit is replaced by
  what \<open>toUpperCase\<close> makes of it and the rest is kept; without, the word is kept.
\<close>

definition word_segment :: "(string \<Rightarrow> string) \<Rightarrow> bool \<Rightarrow> string \<Rightarrow> string" where
  "word_segment up cap w = (if cap then up (take 1 w) @ drop 1 w else w)"


text \<open>The results of \<open>n\<close> successive calls of \<open>next\<close> on one sampler.\<close>

fun next_sequence ::
  "(string \<Rightarrow> string) \<Rightarrow> nat \<Rightarrow> string list \<Rightarrow> string list \<Rightarrow> RandomName
     \<Rightarrow> (error + string) list" where
  "next_sequence up 0 adjs anis this = []"
| "next_sequence up (Suc n) adjs anis this =
     (case RandomName_next up adjs anis this of
        (r, this') \<Rightarrow> r # next_sequence up n adjs anis this')"

text \<open>
  The candidates of copy-suffix mode: \<open>{base}-copy\<close>, then \<open>{base}-copy-1\<close>,
  \<open>{base}-copy-2\<close>, \<dots>
\<close>

definition copy_candidate :: "string \<Rightarrow> nat \<Rightarrow> string" where
  "copy_candidate base k =
     (if k = 0 then base @ ''-copy'' else base @ ''-copy-'' @ numberToString (int k))"

text \<open>The path checked for a candidate name under the root directory.\<close>

definition probe_path :: "string \<Rightarrow> string \<Rightarrow> string" where
  "probe_path rt n = rt @ ''/'' @ n"

text \<open>The sampler that fresh-name mode constructs.\<close>

definition fresh_sampler :: "Env \<Rightarrow> RandomName" where
  "fresh_sampler env =
     RandomName_new (randomSeeded env) (mathRandom env)
       \<lparr> opt_seed = None, opt_separator = Some ''-'',
         opt_capitalize = None, opt_addNumbers = Some True \<rparr>"

section \<open>Sample inputs\<close>

text \<open>
  A small generator standing in for the library's \<open>randomSeeded\<close> where the model is
  run on concrete inputs: the draws of seed \<open>s\<close> are the doubles written \<open>0.d\<close>, for the
  last digits \<open>d\<close> of \<open>7 s, 7 s + 3, 7 s + 6, \<dots>\<close>
\<close>

definition sample_randomSeeded :: "int \<Rightarrow> nat \<Rightarrow> rat" where
  "sample_randomSeeded s i = round_double (of_int ((s * 7 + int i * 3) mod 10) / 10)"

text \<open>
  A case mapping for concrete inputs: the letters \<open>a\<close> to \<open>z\<close> go to \<open>A\<close> to \<open>Z\<close>,
  every other code unit is kept.
\<close>

definition sample_upper_char :: "char \<Rightarrow> char" where
  "sample_upper_char c =
     (case map_of (zip ''abcdefghijklmnopqrstuvwxyz'' ''ABCDEFGHIJKLMNOPQRSTUVWXYZ'') c of
        None \<Rightarrow> c
      | Some u \<Rightarrow> u)"

definition sample_toUpperCase :: "string \<Rightarrow> string" where
  "sample_toUpperCase s = map sample_upper_char s"

text \<open>
  An environment for running the resolver on concrete inputs: the sample generator, the
  sample case mapping, three adjectives, two animals, and the given file system and
  \<open>Math.random()\<close> value.
\<close>

definition sample_env :: "(string \<Rightarrow> bool) \<Rightarrow> rat \<Rightarrow> Env" where
  "sample_env ex r =
     \<lparr> randomSeeded = sample_randomSeeded, mathRandom = r,
       toUpperCase = sample_toUpperCase,
       adjectives = [''red'', ''big'', ''calm''], animals = [''cat'', ''dog''],
       existsSync = ex \<rparr>"

section \<open>Rounding\<close>

lemma floor_rat_numeral [simp]: "\<lfloor>numeral a / numeral b :: rat\<rfloor> = numeral a div numeral b"
  by (metis floor_divide_of_int_eq of_int_numeral)

lemma ceiling_rat_numeral [simp]:
  "\<lceil>numeral a / numeral b :: rat\<rceil> = - (- numeral a div numeral b)"
  by (metis ceiling_divide_eq_div of_int_numeral)

lemma floor_rat_one_numeral [simp]: "\<lfloor>1 / numeral b :: rat\<rfloor> = 1 div numeral b"
  by (metis floor_divide_of_int_eq of_int_1 of_int_numeral)

lemma ceiling_rat_one_numeral [simp]: "\<lceil>1 / numeral b :: rat\<rceil> = - (- 1 div numeral b)"
  by (metis ceiling_divide_eq_div of_int_1 of_int_numeral)

lemmas double_defs = round_double_def round_double_pos_def binade_def pow2_def
  round_half_even_def dmul_def is_double_def bit_length.simps Let_def

lemma pow2_pos: "0 < pow2 k"
  by (simp add: pow2_def)

lemma pow2_neg: "pow2 (- int k) = 1 / 2 ^ k"
  by (cases "k = 0") (simp_all add: pow2_def)

lemma pow2_add: "pow2 (a + b) = pow2 a * pow2 b"
proof -
  have "pow2 k = 2 powi k" for k
    by (simp add: pow2_def power_int_def inverse_eq_divide power_one_over)
  then show ?thesis by (simp add: power_int_add)
qed

lemma bit_length_pos: "0 < m \<Longrightarrow> 0 < bit_length m"
  by (subst bit_length.simps) simp

lemma bit_length_lower: "0 < n \<Longrightarrow> 2 ^ (bit_length n - 1) \<le> n"
proof (induction n rule: bit_length.induct)
  case (1 n)
  show ?case
  proof (cases "n div 2 \<le> 0")
    case True
    with "1.prems" have "n = 1" by linarith
    then show ?thesis by (simp add: bit_length.simps [of 1] bit_length.simps [of 0])
  next
    case False
    then have pos: "0 < n div 2" by simp
    with "1.prems" "1.IH" have ih: "2 ^ (bit_length (n div 2) - 1) \<le> n div 2" by simp
    from pos have "0 < bit_length (n div 2)" by (rule bit_length_pos)
    then have "bit_length (n div 2) = Suc (bit_length (n div 2) - 1)" by simp
    then have "(2::int) ^ bit_length (n div 2) = 2 * 2 ^ (bit_length (n div 2) - 1)"
      by (metis power_Suc)
    also have "\<dots> \<le> 2 * (n div 2)" using ih by simp
    also have "\<dots> \<le> n" by simp
    finally show ?thesis using "1.prems" by (subst bit_length.simps) simp
  qed
qed

lemma bit_length_upper: "0 \<le> n \<Longrightarrow> n < 2 ^ bit_length n"
proof (induction n rule: bit_length.induct)
  case (1 n)
  show ?case
  proof (cases "n \<le> 0")
    case True
    with "1.prems" show ?thesis by simp
  next
    case False
    with "1.IH" have "n div 2 < 2 ^ bit_length (n div 2)" by simp
    then have "n < 2 * 2 ^ bit_length (n div 2)" by linarith
    with False show ?thesis by (subst bit_length.simps) simp
  qed
qed

lemma round_half_even_upper: "of_int (round_half_even q) \<le> q + 1 / 2"
proof -
  define f where "f = \<lfloor>q\<rfloor>"
  define r where "r = q - of_int f"
  have q: "q = of_int f + r" by (simp add: r_def)
  have rhe: "round_half_even q =
      (if r < 1 / 2 then f else if 1 / 2 < r then f + 1 else if even f then f else f + 1)"
    by (simp add: round_half_even_def Let_def f_def r_def)
  have r: "0 \<le> r" "r < 1" unfolding r_def f_def by linarith+
  show ?thesis
  proof (cases "r < 1 / 2")
    case True
    with rhe r q show ?thesis by simp
  next
    case False
    then have "(of_int (round_half_even q) :: rat) \<le> of_int f + 1"
      unfolding rhe by simp
    with False q show ?thesis by linarith
  qed
qed

lemma round_half_even_nonneg: "0 \<le> q \<Longrightarrow> 0 \<le> round_half_even q"
  by (auto simp: round_half_even_def Let_def)

lemma binade_lower:
  assumes "0 < x"
  shows "pow2 (binade x) \<le> x \<or> binade x = - 1022"
proof (cases "1 \<le> x")
  case True
  then have f: "0 < \<lfloor>x\<rfloor>" by simp
  then have b: "0 < bit_length \<lfloor>x\<rfloor>" by (rule bit_length_pos)
  from bit_length_lower [OF f] have "(2::int) ^ (bit_length \<lfloor>x\<rfloor> - 1) \<le> \<lfloor>x\<rfloor>" .
  then have "of_int ((2::int) ^ (bit_length \<lfloor>x\<rfloor> - 1)) \<le> (of_int \<lfloor>x\<rfloor> :: rat)"
    by (simp only: of_int_le_iff)
  also have "\<dots> \<le> x" by simp
  finally have "(2::rat) ^ (bit_length \<lfloor>x\<rfloor> - 1) \<le> x" by simp
  moreover from True b have "pow2 (binade x) = 2 ^ (bit_length \<lfloor>x\<rfloor> - 1)"
    by (simp add: binade_def pow2_def nat_diff_distrib')
  ultimately show ?thesis by simp
next
  case False
  let ?k = "bit_length (\<lceil>1 / x\<rceil> - 1)"
  show ?thesis
  proof (cases "- int ?k < - 1022")
    case True
    with False show ?thesis by (simp add: binade_def)
  next
    case k: False
    from False assms have "1 < 1 / x" by simp
    also have "1 / x \<le> of_int \<lceil>1 / x\<rceil>" by (rule le_of_int_ceiling)
    finally have "(1 :: rat) < of_int \<lceil>1 / x\<rceil>" .
    then have "1 < \<lceil>1 / x\<rceil>" by (simp only: of_int_1_less_iff)
    then have "0 \<le> \<lceil>1 / x\<rceil> - 1" by linarith
    from bit_length_upper [OF this] have "\<lceil>1 / x\<rceil> \<le> 2 ^ ?k" by linarith
    then have "1 / x \<le> of_int (2 ^ ?k)" by (simp only: ceiling_le_iff)
    then have "1 / x \<le> 2 ^ ?k" by simp
    with assms have "1 \<le> 2 ^ ?k * x" by (simp add: pos_divide_le_eq)
    then have "1 / 2 ^ ?k \<le> x" by (simp add: field_simps)
    moreover from False k have "binade x = - int ?k" by (simp add: binade_def)
    ultimately show ?thesis by (simp add: pow2_neg)
  qed
qed

lemma binade_upper_half:
  assumes "1 / 2 \<le> x" and "x < 1"
  shows "binade x = - 1"
proof -
  from assms have "0 < x" by simp
  with assms have "1 < 1 / x" "1 / x \<le> 2" by (simp_all add: field_simps)
  then have "\<lceil>1 / x\<rceil> = 2" by (simp add: ceiling_eq_iff) 
  with assms show ?thesis
    by (simp add: binade_def bit_length.simps [of 1] bit_length.simps [of 0])
qed

lemma double_below_one:
  assumes "is_double v" and "0 \<le> v" and "v < 1"
  shows "v \<le> 1 - pow2 (- 53)"
proof (cases "v < 1 / 2")
  case True
  have "pow2 (- 53) \<le> 1 / 2" by (simp add: pow2_def)
  with True show ?thesis by simp
next
  case False
  then have h: "1 / 2 \<le> v" by simp
  then have pos: "0 < v" by simp
  let ?u = "pow2 (- 53)"
  let ?m = "round_half_even (v / ?u)"
  from assms(1) pos binade_upper_half [OF h assms(3)]
  have v: "v = of_int ?m * ?u"
    by (simp add: is_double_def round_double_def round_double_pos_def Let_def)
  have u: "?u = 1 / 2 ^ 53" by (simp add: pow2_def)
  from v assms(3) have "of_int ?m * ?u < 1" by simp
  then have "(of_int ?m :: rat) < 2 ^ 53" unfolding u by (simp add: field_simps)
  then have "(of_int ?m :: rat) < of_int (2 ^ 53)" by simp
  then have "?m < 2 ^ 53" by (simp only: of_int_less_iff)
  then have "?m \<le> 2 ^ 53 - 1" by simp
  then have "(of_int ?m :: rat) \<le> of_int (2 ^ 53 - 1)" by (simp only: of_int_le_iff)
  then have "(of_int ?m :: rat) \<le> 2 ^ 53 - 1" by simp
  then have "of_int ?m * ?u \<le> (2 ^ 53 - 1) * ?u"
    using pow2_pos [of "- 53"] by (simp only: mult_le_cancel_right_pos)
  also have "\<dots> = 1 - ?u" unfolding u by (simp add: field_simps)
  finally show ?thesis using v by simp
qed

lemma round_double_pos_upper:
  assumes "0 < x"
  shows "round_double_pos x \<le> x + pow2 (binade x - 52) / 2"
proof -
  let ?u = "pow2 (binade x - 52)"
  have u: "0 < ?u" by (rule pow2_pos)
  have "of_int (round_half_even (x / ?u)) * ?u \<le> (x / ?u + 1 / 2) * ?u"
    using round_half_even_upper [of "x / ?u"] u by (simp only: mult_le_cancel_right_pos)
  also have "\<dots> = x + ?u / 2" using u by (simp add: field_simps)
  finally show ?thesis by (simp add: round_double_pos_def Let_def)
qed

lemma round_double_of_pos: "0 < x \<Longrightarrow> round_double x = round_double_pos x"
  by (simp add: round_double_def)

lemma round_double_nonneg:
  assumes "0 \<le> x"
  shows "0 \<le> round_double x"
proof (cases "x = 0")
  case True
  then show ?thesis by (simp add: round_double_def)
next
  case False
  with assms have "0 < x" by simp
  then have "0 \<le> x / pow2 (binade x - 52)" using pow2_pos [of "binade x - 52"] by simp
  then have "0 \<le> round_half_even (x / pow2 (binade x - 52))" by (rule round_half_even_nonneg)
  with \<open>0 < x\<close> pow2_pos [of "binade x - 52"] show ?thesis
    by (simp add: round_double_def round_double_pos_def Let_def)
qed

lemma dmul_below:
  assumes "is_double v" and "unit_interval v" and "0 < n"
  shows "dmul v (of_nat n) < of_nat n"
proof (cases "v = 0")
  case True
  with assms(3) show ?thesis by (simp add: dmul_def round_double_def)
next
  case False
  from assms(2) have v: "0 \<le> v" "v < 1" by (simp_all add: unit_interval_def)
  let ?n = "of_nat n :: rat"
  let ?x = "v * ?n"
  from assms(3) have n: "0 < ?n" "1 \<le> ?n" by simp_all
  from False v n have x: "0 < ?x" by simp
  from v(2) n(1) have xn: "?x < ?n" by simp
  let ?e = "binade ?x"
  have e: "pow2 ?e < ?n"
  proof -
    from binade_lower [OF x] show ?thesis
    proof
      assume "pow2 ?e \<le> ?x"
      with xn show ?thesis by simp
    next
      assume "?e = - 1022"
      then have "pow2 ?e < 1" by (simp add: pow2_def)
      with n(2) show ?thesis by simp
    qed
  qed
  have split: "pow2 (?e - 52) / 2 = pow2 ?e * pow2 (- 53)"
  proof -
    have "pow2 (?e - 52) = pow2 (?e + (- 52))" by simp
    also have "\<dots> = pow2 ?e * pow2 (- 52)" by (rule pow2_add)
    finally show ?thesis by (simp add: pow2_def)
  qed
  have p: "0 < pow2 (- 53)" by (rule pow2_pos)
  from double_below_one [OF assms(1) v] have "pow2 (- 53) \<le> 1 - v" by simp
  with n(1) have gap: "?n * pow2 (- 53) \<le> ?n * (1 - v)" by simp
  have "round_double ?x = round_double_pos ?x" using x by (rule round_double_of_pos)
  also have "\<dots> \<le> ?x + pow2 (?e - 52) / 2" using x by (rule round_double_pos_upper)
  also have "\<dots> = ?x + pow2 ?e * pow2 (- 53)" by (simp only: split)
  also have "\<dots> < ?x + ?n * pow2 (- 53)" using e p by simp
  also have "\<dots> \<le> ?x + ?n * (1 - v)" using gap by simp
  also have "\<dots> = ?n" by (simp add: algebra_simps)
  finally show ?thesis by (simp add: dmul_def)
qed

lemma floor_dmul_bounds:
  assumes "is_double v" and "unit_interval v" and "0 < n"
  shows "0 \<le> \<lfloor>dmul v (of_nat n)\<rfloor> \<and> \<lfloor>dmul v (of_nat n)\<rfloor> < int n"
proof -
  from assms(2) have "0 \<le> v * of_nat n" by (simp add: unit_interval_def)
  then have "0 \<le> dmul v (of_nat n)" unfolding dmul_def by (rule round_double_nonneg)
  then have lo: "0 \<le> \<lfloor>dmul v (of_nat n)\<rfloor>" by simp
  from dmul_below [OF assms] have "dmul v (of_nat n) < of_int (int n)" by simp
  then have hi: "\<lfloor>dmul v (of_nat n)\<rfloor> < int n" by (simp only: floor_less_iff)
  from lo hi show ?thesis by simp
qed

section \<open>Properties of the sampler\<close>

lemma drawn_index_bounds:
  assumes "is_double v" and "unit_interval v" and "arr \<noteq> []"
  shows "\<lfloor>dmul v (of_nat (length arr))\<rfloor> = int (drawn_index v arr)
       \<and> drawn_index v arr < length arr"
proof -
  from assms(3) have "0 < length arr" by simp
  from floor_dmul_bounds [OF assms(1,2) this]
  have "0 \<le> \<lfloor>dmul v (of_nat (length arr))\<rfloor>"
    and "\<lfloor>dmul v (of_nat (length arr))\<rfloor> < int (length arr)" by blast+
  then show ?thesis unfolding drawn_index_def by linarith
qed

lemma pick_eq:
  assumes "is_double (nextRnd this 0)" and "unit_interval (nextRnd this 0)" and "arr \<noteq> []"
  shows "pick this arr = (Some (arr ! drawn_index (nextRnd this 0) arr), advance 1 this)"
proof -
  from drawn_index_bounds [OF assms]
  have e: "\<lfloor>dmul (nextRnd this 0) (of_nat (length arr))\<rfloor> =
      int (drawn_index (nextRnd this 0) arr)"
    and l: "drawn_index (nextRnd this 0) arr < length arr" by blast+
  show ?thesis
    unfolding pick_def call_nextRnd_def Let_def prod.case e
    using l by (simp add: advance_def)
qed

lemma advance_fields [simp]:
  "nextRnd (advance k this) i = nextRnd this (i + k)"
  "separator (advance k this) = separator this"
  "capitalize (advance k this) = capitalize this"
  "addNumbers (advance k this) = addNumbers this"
  "seed (advance k this) = seed this"
  by (simp_all add: advance_def)

lemma capitalizeWord_Some:
  "capitalizeWord up cap (Some w) = Inr (Some (word_segment up cap w))"
  by (simp add: capitalizeWord_def word_segment_def charAt_def slice_def)

lemma next_eq:
  assumes "adjs \<noteq> []" and "anis \<noteq> []"
    and "is_double (nextRnd this 0)" and "unit_interval (nextRnd this 0)"
    and "is_double (nextRnd this 1)" and "unit_interval (nextRnd this 1)"
  shows "RandomName_next up adjs anis this =
           (Inr (word_segment up (capitalize this) (adjs ! drawn_index (nextRnd this 0) adjs)
                 @ separator this
                 @ word_segment up (capitalize this) (anis ! drawn_index (nextRnd this 1) anis)
                 @ (if addNumbers this
                    then separator this @ numberToString \<lfloor>dmul (nextRnd this 2) 100\<rfloor>
                    else [])),
            advance (if addNumbers this then 3 else 2) this)"
proof -
  have p1: "pick this adjs = (Some (adjs ! drawn_index (nextRnd this 0) adjs), advance 1 this)"
    using assms(3,4,1) by (rule pick_eq)
  have a2: "advance 1 (advance 1 this) = advance 2 this"
    by (simp add: advance_def)
  have d: "is_double (nextRnd (advance 1 this) 0)" using assms(5) by simp
  have u: "unit_interval (nextRnd (advance 1 this) 0)" using assms(6) by simp
  have "pick (advance 1 this) anis =
      (Some (anis ! drawn_index (nextRnd this 1) anis), advance 2 this)"
    using pick_eq [OF d u assms(2)] by (simp only: a2 advance_fields add_0)
  then have p2: "pick (advance (Suc 0) this) anis =
      (Some (anis ! drawn_index (nextRnd this (Suc 0)) anis), advance 2 this)"
    by simp
  have c3: "call_nextRnd (advance 2 this) = (nextRnd this 2, advance 3 this)"
    by (simp add: call_nextRnd_def advance_def numeral_2_eq_2 numeral_3_eq_3)
  show ?thesis
    by (simp add: RandomName_next_def p1 p2 c3 capitalizeWord_Some toStr_def)
qed


lemmas sampler_defs =
  RandomName_next_def RandomName_new_def pick_def call_nextRnd_def capitalizeWord_def
  js_or_def truthy_bigint_def truthy_boolean_def truthy_string_def toStr_def
  sample_toUpperCase_def charAt_def slice_def sample_upper_char_def numberToString_def digit_char_def
  sample_randomSeeded_def unit_interval_def MAX_SAFE_INTEGER_def double_defs





text \<open>
  Claim C6. With non-empty word lists and stream values that are doubles in \<open>[0, 1)\<close>,
  the index that \<open>pick\<close> computes, the floor of the double product of the value and the
  length, is within the list for the adjectives and for the animals, and the name is
  built from an element of the adjective list and an element of the animal list.
\<close>

theorem next_words_in_lists:
  assumes "adjs \<noteq> []" and "anis \<noteq> []"
    and "is_double (nextRnd this 0)" and "unit_interval (nextRnd this 0)"
    and "is_double (nextRnd this 1)" and "unit_interval (nextRnd this 1)"
  shows "(\<exists>i < length adjs. \<lfloor>dmul (nextRnd this 0) (of_nat (length adjs))\<rfloor> = int i
            \<and> fst (pick this adjs) = Some (adjs ! i))
       \<and> (\<exists>j < length anis. \<lfloor>dmul (nextRnd this 1) (of_nat (length anis))\<rfloor> = int j
            \<and> fst (pick (advance 1 this) anis) = Some (anis ! j))
       \<and> (\<exists>a \<in> set adjs. \<exists>b \<in> set anis. \<exists>sfx.
            fst (RandomName_next up adjs anis this) =
              Inr (word_segment up (capitalize this) a @ separator this
                   @ word_segment up (capitalize this) b @ sfx))"
proof -
  let ?i = "drawn_index (nextRnd this 0) adjs"
  let ?j = "drawn_index (nextRnd this 1) anis"
  from drawn_index_bounds [OF assms(3,4,1)]
  have fi: "\<lfloor>dmul (nextRnd this 0) (of_nat (length adjs))\<rfloor> = int ?i"
    and i: "?i < length adjs" by blast+
  from drawn_index_bounds [OF assms(5,6,2)]
  have fj: "\<lfloor>dmul (nextRnd this 1) (of_nat (length anis))\<rfloor> = int ?j"
    and j: "?j < length anis" by blast+
  have d: "is_double (nextRnd (advance 1 this) 0)" using assms(5) by simp
  have u: "unit_interval (nextRnd (advance 1 this) 0)" using assms(6) by simp
  have pj: "fst (pick (advance 1 this) anis) = Some (anis ! ?j)"
    using pick_eq [OF d u assms(2)] by simp
  have pi: "fst (pick this adjs) = Some (adjs ! ?i)"
    using pick_eq [OF assms(3,4,1)] by simp
  have c1: "\<exists>i < length adjs. \<lfloor>dmul (nextRnd this 0) (of_nat (length adjs))\<rfloor> = int i
            \<and> fst (pick this adjs) = Some (adjs ! i)"
    using i fi pi by blast
  have c2: "\<exists>j < length anis. \<lfloor>dmul (nextRnd this 1) (of_nat (length anis))\<rfloor> = int j
            \<and> fst (pick (advance 1 this) anis) = Some (anis ! j)"
    using j fj pj by blast
  have "adjs ! ?i \<in> set adjs" "anis ! ?j \<in> set anis"
    using i j by simp_all
  moreover have "\<exists>sfx. fst (RandomName_next up adjs anis this) =
      Inr (word_segment up (capitalize this) (adjs ! ?i) @ separator this
           @ word_segment up (capitalize this) (anis ! ?j) @ sfx)"
    using next_eq [OF assms] by simp
  ultimately have c3: "\<exists>a \<in> set adjs. \<exists>b \<in> set anis. \<exists>sfx.
            fst (RandomName_next up adjs anis this) =
              Inr (word_segment up (capitalize this) a @ separator this
                   @ word_segment up (capitalize this) b @ sfx)"
    by blast
  from c1 c2 c3 show ?thesis by blast
qed

text \<open>
  The claim where the first draw is the double written \<open>0.6666666666666666\<close>, the one
  nearest to \<open>2 / 3\<close> and below it: its double product with the length 3 is 2, the index
  of the last adjective.
\<close>

theorem next_words_in_lists_witness:
  "is_double (round_double (2 / 3)) \<and> unit_interval (round_double (2 / 3))
   \<and> round_double (2 / 3) < 2 / 3
   \<and> is_double 0 \<and> unit_interval 0
   \<and> \<lfloor>dmul (round_double (2 / 3)) (of_nat (length [''red'', ''big'', ''calm'']))\<rfloor> = 2
   \<and> fst (pick \<lparr>seed = 2, nextRnd = (\<lambda>i. if i = 0 then round_double (2 / 3) else 0),
                separator = ''-'', capitalize = False, addNumbers = False\<rparr>
            [''red'', ''big'', ''calm'']) = Some ''calm''
   \<and> fst (RandomName_next sample_toUpperCase [''red'', ''big'', ''calm''] [''cat'', ''dog'']
            \<lparr>seed = 2, nextRnd = (\<lambda>i. if i = 0 then round_double (2 / 3) else 0),
             separator = ''-'', capitalize = False, addNumbers = False\<rparr>) = Inr ''calm-cat''"
  using next_words_in_lists [of "[''red'', ''big'', ''calm'']" "[''cat'', ''dog'']"
      "\<lparr>seed = 2, nextRnd = (\<lambda>i. if i = 0 then round_double (2 / 3) else 0),
        separator = ''-'', capitalize = False, addNumbers = False\<rparr>" sample_toUpperCase]
  by (simp add: sampler_defs)

lemma new_empty_separator:
  "RandomName_new rs mr (opts\<lparr>opt_separator := Some ''''\<rparr>) =
   RandomName_new rs mr (opts\<lparr>opt_separator := None\<rparr>)"
  by (simp add: RandomName_new_def js_or_def truthy_string_def)

text \<open>
  Claim C9. A sampler constructed with the empty string as separator is the sampler
  constructed with no separator: its separator is a single space, and \<open>next\<close> joins the
  words (and the number) with it.
\<close>

theorem empty_separator_is_space:
  assumes "adjs \<noteq> []" and "anis \<noteq> []"
    and "r = RandomName_new rs mr (opts\<lparr>opt_separator := Some ''''\<rparr>)"
    and "unit_interval (nextRnd r 0)" and "unit_interval (nextRnd r 1)"
  shows "r = RandomName_new rs mr (opts\<lparr>opt_separator := None\<rparr>)
       \<and> separator r = '' ''
       \<and> (is_double (nextRnd r 0) \<and> is_double (nextRnd r 1) \<longrightarrow>
          fst (RandomName_next up adjs anis r) =
           Inr (word_segment up (capitalize r) (adjs ! drawn_index (nextRnd r 0) adjs)
                @ '' ''
                @ word_segment up (capitalize r) (anis ! drawn_index (nextRnd r 1) anis)
                @ (if addNumbers r then '' '' @ numberToString \<lfloor>dmul (nextRnd r 2) 100\<rfloor>
                   else [])))"
proof (intro conjI impI)
  show "r = RandomName_new rs mr (opts\<lparr>opt_separator := None\<rparr>)"
    using new_empty_separator [of rs mr opts] assms(3) by simp
  show sep: "separator r = '' ''"
    unfolding assms(3) by (simp add: RandomName_new_def js_or_def truthy_string_def Let_def)
  assume d: "is_double (nextRnd r 0) \<and> is_double (nextRnd r 1)"
  then have d0: "is_double (nextRnd r 0)" and d1: "is_double (nextRnd r 1)" by blast+
  from next_eq [OF assms(1,2) d0 assms(4) d1 assms(5), of up] sep
  show "fst (RandomName_next up adjs anis r) =
           Inr (word_segment up (capitalize r) (adjs ! drawn_index (nextRnd r 0) adjs)
                @ '' ''
                @ word_segment up (capitalize r) (anis ! drawn_index (nextRnd r 1) anis)
                @ (if addNumbers r then '' '' @ numberToString \<lfloor>dmul (nextRnd r 2) 100\<rfloor>
                   else []))"
    by simp
qed

text \<open>The claim at seed 1 of the sample generator: draws 0.7, 0.0 and 0.3.\<close>

theorem empty_separator_is_space_witness:
  "fst (RandomName_next sample_toUpperCase [''red'', ''big'', ''calm''] [''cat'', ''dog'']
         (RandomName_new sample_randomSeeded 0
            \<lparr>opt_seed = Some 1, opt_separator = Some '''', opt_capitalize = None,
             opt_addNumbers = Some True\<rparr>)) = Inr ''calm cat 30''"
  using empty_separator_is_space [of "[''red'', ''big'', ''calm'']" "[''cat'', ''dog'']"
      "RandomName_new sample_randomSeeded 0
            \<lparr>opt_seed = Some 1, opt_separator = Some '''', opt_capitalize = None,
             opt_addNumbers = Some True\<rparr>"
      sample_randomSeeded 0
      "\<lparr>opt_seed = Some 1, opt_separator = Some '''', opt_capitalize = None,
             opt_addNumbers = Some True\<rparr>" sample_toUpperCase]
  by (simp add: RandomName_new_def js_or_def truthy_bigint_def truthy_boolean_def
      truthy_string_def sample_randomSeeded_def double_defs unit_interval_def word_segment_def
      drawn_index_def numberToString_def show_nat.simps digit_char_def)

text \<open>
  With a seed other than zero the constructor does not consult \<open>Math.random()\<close>: two
  samplers built from the same options return the same results, call after call.
\<close>

lemma nonzero_seed_deterministic:
  assumes "opt_seed opts = Some s" and "s \<noteq> 0"
  shows "next_sequence up n adjs anis (RandomName_new rs r1 opts) =
         next_sequence up n adjs anis (RandomName_new rs r2 opts)"
proof -
  from assms have "RandomName_new rs r1 opts = RandomName_new rs r2 opts"
    by (simp add: RandomName_new_def js_or_def truthy_bigint_def)
  then show ?thesis by simp
qed

text \<open>
  Claim C1. Two samplers constructed from the same options with the seed present should
  return the same sequence of names. With the seed \<open>0n\<close> they need not: \<open>0n\<close> is falsy,
  so the constructor replaces it by a seed derived from \<open>Math.random()\<close>. Here the two
  constructions see \<open>Math.random()\<close> return 0 and 1/2, and their first names differ.
\<close>

theorem seed_zero_not_reproducible:
  "next_sequence sample_toUpperCase 1 [''red'', ''big'', ''calm''] [''cat'', ''dog'']
     (RandomName_new sample_randomSeeded 0
        \<lparr>opt_seed = Some 0, opt_separator = None, opt_capitalize = None,
         opt_addNumbers = None\<rparr>) = [Inr ''red cat'']
   \<and> next_sequence sample_toUpperCase 1 [''red'', ''big'', ''calm''] [''cat'', ''dog'']
     (RandomName_new sample_randomSeeded (1 / 2)
        \<lparr>opt_seed = Some 0, opt_separator = None, opt_capitalize = None,
         opt_addNumbers = None\<rparr>) = [Inr ''big dog'']"
  by (simp add: sampler_defs)

section \<open>Properties of the resolver\<close>

lemma copy_loop_finds:
  assumes "\<not> ex (probe_path rt (copy_candidate base (k + d)))"
    and "\<forall>j<d. ex (probe_path rt (copy_candidate base (k + j)))"
  shows "copy_loop ex rt base (copy_candidate base k) (k + 1) probes =
           Some (copy_candidate base (k + d),
                 probes @ map (\<lambda>j. probe_path rt (copy_candidate base j)) [k..<k + d + 1])"
  using assms
proof (induction d arbitrary: k probes)
  case 0
  then show ?case
    by (simp add: copy_loop.simps [of ex rt base "copy_candidate base k"] probe_path_def)
next
  case (Suc d)
  from Suc.prems(2) have here: "ex (probe_path rt (copy_candidate base k))"
    by (metis add.right_neutral zero_less_Suc)
  have nxt: "base @ ''-copy-'' @ numberToString (int (k + 1)) = copy_candidate base (k + 1)"
    by (simp add: copy_candidate_def)
  have free: "\<not> ex (probe_path rt (copy_candidate base (k + 1 + d)))"
    using Suc.prems(1) by simp
  have taken: "\<forall>j<d. ex (probe_path rt (copy_candidate base (k + 1 + j)))"
  proof (intro allI impI)
    fix j assume "j < d"
    then have "Suc j < Suc d" by simp
    with Suc.prems(2) have "ex (probe_path rt (copy_candidate base (k + Suc j)))" by blast
    then show "ex (probe_path rt (copy_candidate base (k + 1 + j)))" by simp
  qed
  have step: "copy_loop ex rt base (copy_candidate base k) (k + 1) probes =
      copy_loop ex rt base (copy_candidate base (k + 1)) (k + 1 + 1)
        (probes @ [probe_path rt (copy_candidate base k)])"
    using here nxt
    by (subst copy_loop.simps) (simp add: probe_path_def)
  have upt: "[k..<k + Suc d + 1] = k # [k + 1..<k + 1 + d + 1]"
    by (simp add: upt_conv_Cons)
  show ?case
    unfolding step Suc.IH [OF free taken] upt by simp
qed

lemma copy_loop_free:
  assumes "copy_loop ex rt base x i probes = Some r"
  shows "\<not> ex (probe_path rt (fst r))"
  by (rule copy_loop.raw_induct
        [where P = "\<lambda>ex rt base x i probes r. \<not> ex (probe_path rt (fst r))", OF _ assms])
     (fastforce simp: probe_path_def split: if_splits)

lemma fresh_loop_free:
  assumes "fresh_loop ex up adjs anis rt rn probes = Some r"
  shows "\<forall>n. fst r = Inr n \<longrightarrow> \<not> ex (probe_path rt n)"
  by (rule fresh_loop.raw_induct
        [where P = "\<lambda>ex up adjs anis rt rn probes r. \<forall>n. fst r = Inr n \<longrightarrow> \<not> ex (probe_path rt n)",
         OF _ assms])
     (fastforce simp: probe_path_def split: if_splits prod.splits sum.splits)

lemma copy_loop_old_eq: "copy_loop_old ex rt base x i probes = copy_loop ex rt base x i probes"
proof -
  have a: "copy_loop ex rt base x i probes = Some r" if "copy_loop_old ex rt base x i probes = Some r" for r
    by (rule copy_loop_old.raw_induct
          [where P = "\<lambda>ex rt base x i probes r. copy_loop ex rt base x i probes = Some r", OF _ that])
       (subst copy_loop.simps, auto split: if_splits)
  have b: "copy_loop_old ex rt base x i probes = Some r" if "copy_loop ex rt base x i probes = Some r" for r
    by (rule copy_loop.raw_induct
          [where P = "\<lambda>ex rt base x i probes r. copy_loop_old ex rt base x i probes = Some r", OF _ that])
       (subst copy_loop_old.simps, auto split: if_splits)
  show ?thesis
  proof (cases "copy_loop_old ex rt base x i probes")
    case None
    with b show ?thesis by (cases "copy_loop ex rt base x i probes") auto
  next
    case (Some r)
    with a show ?thesis by simp
  qed
qed

lemma fresh_loop_old_eq:
  "fresh_loop_old ex up adjs anis rt rn probes = fresh_loop ex up adjs anis rt rn probes"
proof -
  have a: "fresh_loop ex up adjs anis rt rn probes = Some r"
    if "fresh_loop_old ex up adjs anis rt rn probes = Some r" for r
    by (rule fresh_loop_old.raw_induct
          [where P = "\<lambda>ex up adjs anis rt rn probes r. fresh_loop ex up adjs anis rt rn probes = Some r",
           OF _ that])
       (subst fresh_loop.simps, auto split: if_splits prod.splits sum.splits)
  have b: "fresh_loop_old ex up adjs anis rt rn probes = Some r"
    if "fresh_loop ex up adjs anis rt rn probes = Some r" for r
    by (rule fresh_loop.raw_induct
          [where P = "\<lambda>ex up adjs anis rt rn probes r. fresh_loop_old ex up adjs anis rt rn probes = Some r",
           OF _ that])
       (subst fresh_loop_old.simps, auto split: if_splits prod.splits sum.splits)
  show ?thesis
  proof (cases "fresh_loop_old ex up adjs anis rt rn probes")
    case None
    with b show ?thesis by (cases "fresh_loop ex up adjs anis rt rn probes") auto
  next
    case (Some r)
    with a show ?thesis by simp
  qed
qed

lemma next_no_error:
  assumes "\<not> capitalize this"
  shows "\<exists>n. fst (RandomName_next up adjs anis this) = Inr n"
  using assms
  by (simp add: RandomName_next_def capitalizeWord_def Let_def split: prod.splits)

lemma fresh_sampler_plain: "\<not> capitalize (fresh_sampler env)"
  by (simp add: fresh_sampler_def RandomName_new_def js_or_def Let_def)

lemma getProjectName_copy:
  assumes "\<not> js_truthy truthy_string (name options)"
    and "copy options = Some base" and "base \<noteq> []"
  shows "getProjectName env options =
           map_option (\<lambda>(x, probes). (Inr x, probes))
             (copy_loop (existsSync env) (root_dir options) base (copy_candidate base 0) (0 + 1) [])"
  using assms
  by (simp add: getProjectName_def js_truthy_def truthy_string_def copy_candidate_def)

lemma getProjectName_fresh:
  assumes "\<not> js_truthy truthy_string (name options)"
    and "\<not> js_truthy truthy_string (copy options)"
  shows "getProjectName env options =
           fresh_loop (existsSync env) (toUpperCase env) (adjectives env) (animals env)
             (root_dir options)
             (fresh_sampler env) []"
  using assms by (simp add: getProjectName_def fresh_sampler_def)

text \<open>
  Claim C2. In copy-suffix mode (no name, a non-empty copy base), if candidate number
  \<open>k\<close> is the first that does not exist, the resolver has probed the candidates
  \<open>0, \<dots>, k\<close> in this order and returns candidate \<open>k\<close>. For base \<open>foo\<close> with exactly
  \<open>foo-copy\<close> and \<open>foo-copy-1\<close> taken it returns \<open>foo-copy-2\<close>. The result depends on
  the environment through \<open>existsSync\<close> only.
\<close>

theorem copy_mode_first_free:
  assumes "\<not> js_truthy truthy_string (name options)"
    and "copy options = Some base" and "base \<noteq> []"
  shows "(\<forall>k. \<not> existsSync env (probe_path (root_dir options) (copy_candidate base k))
             \<and> (\<forall>j<k. existsSync env (probe_path (root_dir options) (copy_candidate base j)))
           \<longrightarrow> getProjectName env options =
                 Some (Inr (copy_candidate base k),
                       map (\<lambda>j. probe_path (root_dir options) (copy_candidate base j)) [0..<k + 1]))
       \<and> (base = ''foo''
            \<and> (\<forall>n. existsSync env (probe_path (root_dir options) n)
                      = (n \<in> {''foo-copy'', ''foo-copy-1''}))
           \<longrightarrow> getProjectName env options =
                 Some (Inr ''foo-copy-2'',
                       [probe_path (root_dir options) ''foo-copy'',
                        probe_path (root_dir options) ''foo-copy-1'',
                        probe_path (root_dir options) ''foo-copy-2'']))
       \<and> (\<forall>env'. existsSync env' = existsSync env
           \<longrightarrow> getProjectName env' options = getProjectName env options)"
proof (intro conjI allI impI)
  fix k
  assume h: "\<not> existsSync env (probe_path (root_dir options) (copy_candidate base k))
     \<and> (\<forall>j<k. existsSync env (probe_path (root_dir options) (copy_candidate base j)))"
  from h have "copy_loop (existsSync env) (root_dir options) base (copy_candidate base 0) (0 + 1) [] =
      Some (copy_candidate base (0 + k),
            [] @ map (\<lambda>j. probe_path (root_dir options) (copy_candidate base j)) [0..<0 + k + 1])"
    by (intro copy_loop_finds) simp_all
  then show "getProjectName env options =
      Some (Inr (copy_candidate base k),
            map (\<lambda>j. probe_path (root_dir options) (copy_candidate base j)) [0..<k + 1])"
    unfolding getProjectName_copy [OF assms] by simp
next
  assume h: "base = ''foo''
     \<and> (\<forall>n. existsSync env (probe_path (root_dir options) n) = (n \<in> {''foo-copy'', ''foo-copy-1''}))"
  let ?rt = "root_dir options"
  from h have e0: "existsSync env (?rt @ ''/'' @ ''foo-copy'')"
    and e1: "existsSync env (?rt @ ''/'' @ ''foo-copy-1'')"
    and e2: "\<not> existsSync env (?rt @ ''/'' @ ''foo-copy-2'')"
    by (simp_all add: probe_path_def)
  have n: "numberToString (int 1) = ''1''" "numberToString (int 2) = ''2''"
    by (simp_all add: numberToString_def show_nat.simps digit_char_def)
  have "copy_loop (existsSync env) ?rt ''foo'' ''foo-copy'' (Suc 0) [] =
      copy_loop (existsSync env) ?rt ''foo'' ''foo-copy-1'' (Suc (Suc 0)) [?rt @ ''/'' @ ''foo-copy'']"
    using e0 n by (subst copy_loop.simps) simp
  also have "\<dots> = copy_loop (existsSync env) ?rt ''foo'' ''foo-copy-2'' (Suc (Suc (Suc 0)))
      [?rt @ ''/'' @ ''foo-copy'', ?rt @ ''/'' @ ''foo-copy-1'']"
    using e1 n by (subst copy_loop.simps) simp
  also have "\<dots> = Some (''foo-copy-2'',
      [?rt @ ''/'' @ ''foo-copy'', ?rt @ ''/'' @ ''foo-copy-1'', ?rt @ ''/'' @ ''foo-copy-2''])"
    using e2 by (subst copy_loop.simps) simp
  finally show "getProjectName env options =
      Some (Inr ''foo-copy-2'',
            [probe_path (root_dir options) ''foo-copy'',
             probe_path (root_dir options) ''foo-copy-1'',
             probe_path (root_dir options) ''foo-copy-2''])"
    unfolding getProjectName_copy [OF assms] using h
    by (simp add: copy_candidate_def probe_path_def)
next
  fix env' :: Env
  assume "existsSync env' = existsSync env"
  then show "getProjectName env' options = getProjectName env options"
    unfolding getProjectName_copy [OF assms] by simp
qed

text \<open>The claim for base \<open>foo\<close> under \<open>/tmp/box\<close>.\<close>

theorem copy_mode_first_free_witness:
  "getProjectName
     (sample_env (\<lambda>p. p \<in> {''/tmp/box/foo-copy'', ''/tmp/box/foo-copy-1''}) 0)
     \<lparr>name = None, copy = Some ''foo'', root_dir = ''/tmp/box''\<rparr>
   = Some (Inr ''foo-copy-2'',
           [''/tmp/box/foo-copy'', ''/tmp/box/foo-copy-1'', ''/tmp/box/foo-copy-2''])"
  using copy_mode_first_free
    [of "\<lparr>name = None, copy = Some ''foo'', root_dir = ''/tmp/box''\<rparr>" "''foo''"
        "sample_env (\<lambda>p. p \<in> {''/tmp/box/foo-copy'', ''/tmp/box/foo-copy-1''}) 0"]
  by (simp add: js_truthy_def probe_path_def sample_env_def)

text \<open>
  Claim C3. In fresh-name mode and in copy-suffix mode, where \<open>existsSync\<close> holds for
  exactly the names of a set \<open>taken\<close> under the root directory: a name the resolver
  returns is not in \<open>taken\<close>; and when \<open>taken\<close> is empty the resolver returns after one
  probe, with the first candidate (\<open>{base}-copy\<close>, or the first name of the sampler).
\<close>

theorem resolver_avoids_taken:
  assumes "\<not> js_truthy truthy_string (name options)"
    and "\<forall>n. existsSync env (probe_path (root_dir options) n) = (n \<in> taken)"
  shows "(\<forall>n probes. getProjectName env options = Some (Inr n, probes) \<longrightarrow> n \<notin> taken)
       \<and> (taken = {} \<longrightarrow>
            (\<exists>n. getProjectName env options = Some (Inr n, [probe_path (root_dir options) n])
                 \<and> (if js_truthy truthy_string (copy options)
                    then n = the (copy options) @ ''-copy''
                    else Inr n = fst (RandomName_next (toUpperCase env) (adjectives env) (animals env)
                                        (fresh_sampler env)))))"
proof (intro conjI allI impI)
  fix n probes
  assume r: "getProjectName env options = Some (Inr n, probes)"
  have "\<not> existsSync env (probe_path (root_dir options) n)"
  proof (cases "js_truthy truthy_string (copy options)")
    case True
    with r assms(1) obtain q where
      "copy_loop (existsSync env) (root_dir options) (the (copy options))
         (the (copy options) @ ''-copy'') 1 [] = Some q" and "fst q = n"
      by (auto simp: getProjectName_def)
    with copy_loop_free show ?thesis by blast
  next
    case False
    with r assms(1) have
      "fresh_loop (existsSync env) (toUpperCase env) (adjectives env) (animals env)
             (root_dir options)
         (fresh_sampler env) [] = Some (Inr n, probes)"
      by (simp add: getProjectName_fresh)
    from fresh_loop_free [OF this] show ?thesis by simp
  qed
  with assms(2) show "n \<notin> taken" by simp
next
  assume "taken = {}"
  with assms(2) have none: "\<not> existsSync env (probe_path (root_dir options) n)" for n
    by simp
  show "\<exists>n. getProjectName env options = Some (Inr n, [probe_path (root_dir options) n])
          \<and> (if js_truthy truthy_string (copy options)
             then n = the (copy options) @ ''-copy''
             else Inr n = fst (RandomName_next (toUpperCase env) (adjectives env) (animals env)
                                 (fresh_sampler env)))"
  proof (cases "js_truthy truthy_string (copy options)")
    case True
    have "copy_loop (existsSync env) (root_dir options) (the (copy options))
         (the (copy options) @ ''-copy'') 1 [] =
        Some (the (copy options) @ ''-copy'',
              [probe_path (root_dir options) (the (copy options) @ ''-copy'')])"
      using none [of "the (copy options) @ ''-copy''"]
      by (subst copy_loop.simps) (simp add: probe_path_def)
    with True assms(1) show ?thesis by (simp add: getProjectName_def)
  next
    case False
    obtain n where n: "fst (RandomName_next (toUpperCase env) (adjectives env) (animals env) (fresh_sampler env)) = Inr n"
      using next_no_error [OF fresh_sampler_plain] by blast
    then obtain t where "RandomName_next (toUpperCase env) (adjectives env) (animals env) (fresh_sampler env) = (Inr n, t)"
      by (cases "RandomName_next (toUpperCase env) (adjectives env) (animals env) (fresh_sampler env)") simp
    then have "fresh_loop (existsSync env) (toUpperCase env) (adjectives env) (animals env)
             (root_dir options)
         (fresh_sampler env) [] = Some (Inr n, [probe_path (root_dir options) n])"
      using none [of n]
      by (subst fresh_loop.simps) (simp add: probe_path_def)
    with False assms(1) n show ?thesis by (simp add: getProjectName_fresh)
  qed
qed

lemmas resolver_defs =
  getProjectName_def js_truthy_def probe_path_def sample_env_def fresh_sampler_def
  copy_loop.simps fresh_loop.simps show_nat.simps

text \<open>
  The claim in copy-suffix mode with \<open>foo-copy\<close> taken, in fresh-name mode with the
  sampler's first name taken, and in fresh-name mode with nothing taken.
\<close>

theorem resolver_avoids_taken_witness:
  "getProjectName (sample_env (\<lambda>p. p = ''/tmp/box/foo-copy'') 0)
     \<lparr>name = None, copy = Some ''foo'', root_dir = ''/tmp/box''\<rparr>
     = Some (Inr ''foo-copy-1'', [''/tmp/box/foo-copy'', ''/tmp/box/foo-copy-1''])
   \<and> ''foo-copy-1'' \<notin> {''foo-copy''}
   \<and> getProjectName (sample_env (\<lambda>p. p = ''/tmp/box/red-cat-60'') 0)
     \<lparr>name = None, copy = None, root_dir = ''/tmp/box''\<rparr>
     = Some (Inr ''calm-cat-50'', [''/tmp/box/red-cat-60'', ''/tmp/box/calm-cat-50''])
   \<and> ''calm-cat-50'' \<notin> {''red-cat-60''}
   \<and> getProjectName (sample_env (\<lambda>p. False) 0)
     \<lparr>name = None, copy = None, root_dir = ''/tmp/box''\<rparr>
     = Some (Inr ''red-cat-60'', [''/tmp/box/red-cat-60''])"
  using
    resolver_avoids_taken
      [of "\<lparr>name = None, copy = Some ''foo'', root_dir = ''/tmp/box''\<rparr>"
          "sample_env (\<lambda>p. p = ''/tmp/box/foo-copy'') 0" "{''foo-copy''}"]
    resolver_avoids_taken
      [of "\<lparr>name = None, copy = None, root_dir = ''/tmp/box''\<rparr>"
          "sample_env (\<lambda>p. p = ''/tmp/box/red-cat-60'') 0" "{''red-cat-60''}"]
    resolver_avoids_taken
      [of "\<lparr>name = None, copy = None, root_dir = ''/tmp/box''\<rparr>"
          "sample_env (\<lambda>p. False) 0" "{}"]
  by (simp add: resolver_defs sampler_defs)

text \<open>
  The empty string is falsy: a name or a copy base that is the empty string is treated as
  one that is not there.
\<close>

lemma empty_name_is_absent:
  assumes "name options = Some []"
  shows "getProjectName env options = getProjectName env (options\<lparr>name := None\<rparr>)"
  using assms by (simp add: getProjectName_def js_truthy_def truthy_string_def)

lemma empty_copy_is_absent:
  assumes "copy options = Some []"
  shows "getProjectName env options = getProjectName env (options\<lparr>copy := None\<rparr>)"
  using assms by (simp add: getProjectName_def js_truthy_def truthy_string_def)

text \<open>
  Claim C7. When the options carry a name (a non-empty string: the empty string is the
  options' default for no name), \<open>getProjectName\<close> returns it unchanged and calls
  \<open>existsSync\<close> on no path.
\<close>

theorem explicit_name_unchanged:
  assumes "name options = Some n" and "n \<noteq> []"
  shows "getProjectName env options = Some (Inr n, [])"
  using assms by (simp add: getProjectName_def js_truthy_def truthy_string_def)

text \<open>The claim on a file system where every path exists.\<close>

theorem explicit_name_unchanged_witness:
  "getProjectName (sample_env (\<lambda>p. True) 0)
     \<lparr>name = Some ''demo'', copy = None, root_dir = ''/tmp/box''\<rparr> = Some (Inr ''demo'', [])"
  using explicit_name_unchanged
    [of "\<lparr>name = Some ''demo'', copy = None, root_dir = ''/tmp/box''\<rparr>" "''demo''"
        "sample_env (\<lambda>p. True) 0"]
  by simp

text \<open>
  Claim C8. When the options carry both a name and a copy base, \<open>getProjectName\<close>
  returns the name with no probe, as it does without the copy base.
\<close>

theorem explicit_name_precedes_copy:
  assumes "name options = Some n" and "n \<noteq> []"
    and "copy options = Some base" and "base \<noteq> []"
  shows "getProjectName env options = Some (Inr n, [])
       \<and> getProjectName env options = getProjectName env (options\<lparr>copy := None\<rparr>)"
  using assms by (simp add: getProjectName_def js_truthy_def truthy_string_def)

text \<open>
  The claim on a file system where every path exists, where the copy loop would not end.
\<close>

theorem explicit_name_precedes_copy_witness:
  "getProjectName (sample_env (\<lambda>p. True) 0)
     \<lparr>name = Some ''demo'', copy = Some ''foo'', root_dir = ''/tmp/box''\<rparr>
   = Some (Inr ''demo'', [])"
  using explicit_name_precedes_copy
    [of "\<lparr>name = Some ''demo'', copy = Some ''foo'', root_dir = ''/tmp/box''\<rparr>" "''demo''"
        "''foo''" "sample_env (\<lambda>p. True) 0"]
  by simp

text \<open>
  Claim C10. \<open>getProjectName\<close> of the older, monolithic main and \<open>getProjectName\<close> of
  \<open>src/main.ts\<close> return the same result, with the same probes, for every environment
  and every options value; where one does not return, neither does the other.
\<close>

theorem getProjectName_old_eq:
  "getProjectName_old env options = getProjectName env options"
  by (simp add: getProjectName_old_def getProjectName_def copy_loop_old_eq fresh_loop_old_eq)

end
